theory Spec2Isabelle
  imports Complex_Main
begin

section \<open>Trace parsing and trip segmentation (driving_info_speed.py)\<close>

text \<open>
  The module reads a textual bus log line by line, keeps a decode context (a Python
  dictionary) and cuts the stream of speed samples into trips. Exceptions of the Python
  code are values of \<open>py_error\<close>; a function that can raise returns \<open>py_error + 'a\<close>.
  The \<open>print\<close> calls of the source write to standard output only and are left out.
\<close>

datatype py_error =
  ValueError | IndexError | KeyError | NameError | OverflowError | ZeroDivisionError
  | RuntimeWarning

subsection \<open>Python lists: indexing and slicing\<close>

text \<open>
  \<open>xs[i]\<close> with a Python integer \<open>i\<close>: an index below zero is taken from the end of the
  list, and an index outside the list raises \<open>IndexError\<close>. \<open>py_index\<close> gives the
  position that is read, \<open>py_getitem\<close> the element.
\<close>

definition py_index :: "'a list \<Rightarrow> int \<Rightarrow> nat option" where
  "py_index xs i =
     (if i < 0 then (if - i \<le> int (length xs) then Some (nat (int (length xs) + i)) else None)
      else (if i < int (length xs) then Some (nat i) else None))"

definition py_getitem :: "'a list \<Rightarrow> int \<Rightarrow> py_error + 'a" where
  "py_getitem xs i = (case py_index xs i of None \<Rightarrow> Inl IndexError | Some k \<Rightarrow> Inr (xs ! k))"

text \<open>
  \<open>xs[start:stop]\<close>: a bound below zero is taken from the end, every bound is clamped
  to the list, and an empty range gives the empty list; a slice never raises.
\<close>

definition slice_bound :: "nat \<Rightarrow> int \<Rightarrow> nat" where
  "slice_bound n i = (if i < 0 then nat (max 0 (int n + i)) else min n (nat i))"

definition py_slice :: "'a list \<Rightarrow> int \<Rightarrow> int \<Rightarrow> 'a list" where
  "py_slice xs start stop =
     take (slice_bound (length xs) stop - slice_bound (length xs) start)
          (drop (slice_bound (length xs) start) xs)"

subsection \<open>Python strings: \<open>split\<close>, \<open>int\<close> and \<open>float\<close>\<close>

text \<open>
  A string is a list of characters with code points below 256. \<open>str.split()\<close> without
  argument cuts at runs of white space and drops empty pieces; the white-space
  characters in this range are tab, line feed, vertical tab, form feed, carriage return,
  the separators \<open>0x1c\<close> to \<open>0x1f\<close>, the blank, \<open>0x85\<close> and \<open>0xa0\<close>.
\<close>

definition is_space :: "char \<Rightarrow> bool" where
  "is_space c = (of_char c \<in> set [9, 10, 11, 12, 13, 28, 29, 30, 31, 32, 133, 160 :: int])"

fun split_from :: "string \<Rightarrow> string \<Rightarrow> string list" where
  "split_from cur [] = (if cur = [] then [] else [rev cur])"
| "split_from cur (c # cs) =
     (if is_space c then (if cur = [] then split_from [] cs else rev cur # split_from [] cs)
      else split_from (c # cur) cs)"

definition py_split :: "string \<Rightarrow> string list" where
  "py_split s = split_from [] s"

text \<open>
  The digits of \<open>int(s, base)\<close> and \<open>float(s)\<close>: a non-empty run of digits of the base
  in which single underscores may stand between two digits.
\<close>

definition digit_value :: "char \<Rightarrow> int option" where
  "digit_value c =
     (let n = (of_char c :: int)
      in if 48 \<le> n \<and> n \<le> 57 then Some (n - 48)
         else if 97 \<le> n \<and> n \<le> 122 then Some (n - 87)
         else if 65 \<le> n \<and> n \<le> 90 then Some (n - 55)
         else None)"

definition is_digit :: "int \<Rightarrow> char \<Rightarrow> bool" where
  "is_digit base c = (case digit_value c of None \<Rightarrow> False | Some v \<Rightarrow> v < base)"

fun adjacent_underscores :: "string \<Rightarrow> bool" where
  "adjacent_underscores (a # b # cs) =
     ((a = CHR ''_'' \<and> b = CHR ''_'') \<or> adjacent_underscores (b # cs))"
| "adjacent_underscores cs = False"

definition digit_seq :: "int \<Rightarrow> string \<Rightarrow> int list option" where
  "digit_seq base s =
     (if s \<noteq> [] \<and> is_digit base (hd s) \<and> is_digit base (last s)
         \<and> list_all (\<lambda>c. is_digit base c \<or> c = CHR ''_'') s \<and> \<not> adjacent_underscores s
      then Some (map (\<lambda>c. the (digit_value c)) (filter (is_digit base) s))
      else None)"

definition int_of_digits :: "int \<Rightarrow> int list \<Rightarrow> int" where
  "int_of_digits base ds = foldl (\<lambda>a d. base * a + d) 0 ds"

definition strip_sign :: "string \<Rightarrow> bool \<times> string" where
  "strip_sign s =
     (case s of
        [] \<Rightarrow> (False, s)
      | c # cs \<Rightarrow>
          if c = CHR ''-'' then (True, cs) else if c = CHR ''+'' then (False, cs) else (False, s))"

text \<open>
  \<open>int(s, base)\<close> for base 10 and base 16 on a token without white space: an optional
  sign, for base 16 an optional prefix \<open>0x\<close> or \<open>0X\<close> (after which one underscore may
  follow), then the digits.
\<close>

definition strip_hex_prefix :: "string \<Rightarrow> string" where
  "strip_hex_prefix s =
     (if take 2 s = ''0x'' \<or> take 2 s = ''0X''
      then (if take 1 (drop 2 s) = ''_'' then drop 3 s else drop 2 s)
      else s)"

definition py_int :: "int \<Rightarrow> string \<Rightarrow> py_error + int" where
  "py_int base tok =
     (let (neg, body) = strip_sign tok;
          digits = (if base = 16 then strip_hex_prefix body else body)
      in case digit_seq base digits of
           None \<Rightarrow> Inl ValueError
         | Some ds \<Rightarrow> Inr (if neg then - int_of_digits base ds else int_of_digits base ds))"

subsection \<open>Python floats\<close>

text \<open>
  A Python float is an IEEE 754 binary64 number. \<open>Finite m e\<close> is the number
  \<open>m * 2 ^ e\<close>; the sign of a zero is not kept (no operation below depends on it).
  Every operation computes the exact result and rounds it to the nearest double, ties
  to the even mantissa: 53 bits of mantissa, exponents of the last mantissa bit from
  \<open>-1074\<close> (subnormal numbers) to \<open>971\<close>, and infinity from \<open>2 ^ 1024\<close> on.
\<close>

datatype pyfloat = Finite int int | PInf | NInf | NaN

text \<open>
  The rounding works on a fraction \<open>n / d\<close> of integers with \<open>0 \<le> n\<close> and \<open>0 < d\<close>.
  \<open>bit_length n\<close> is the number of binary digits of \<open>n\<close>.
\<close>

function bit_length :: "int \<Rightarrow> int" where
  "bit_length n = (if n \<le> 0 then 0 else 1 + bit_length (n div 2))"
  by pat_completeness auto
termination
  by (relation "measure nat") auto

declare bit_length.simps [simp del]

definition round_half_even :: "int \<Rightarrow> int \<Rightarrow> int" where
  "round_half_even n d =
     (let q = n div d; r = n mod d
      in if 2 * r < d then q else if d < 2 * r then q + 1 else if even q then q else q + 1)"

text \<open>\<open>floor_log2 n d\<close> is the integer \<open>e\<close> with \<open>2 ^ e \<le> n / d < 2 ^ (e + 1)\<close>.\<close>

definition floor_log2 :: "int \<Rightarrow> int \<Rightarrow> int" where
  "floor_log2 n d =
     (let e0 = bit_length n - bit_length d
      in if d * 2 ^ nat e0 \<le> n * 2 ^ nat (- e0) then e0 else e0 - 1)"

text \<open>\<open>round_double neg n d\<close> rounds the fraction \<open>n / d\<close>, negated when \<open>neg\<close> holds.\<close>

definition round_double :: "bool \<Rightarrow> int \<Rightarrow> int \<Rightarrow> pyfloat" where
  "round_double neg n d =
     (if n = 0 then Finite 0 0
      else
        (let e = floor_log2 n d;
             ex = max (e - 52) (- 1074);
             m = round_half_even (n * 2 ^ nat (- ex)) (d * 2 ^ nat ex)
         in if 1023 < e \<or> (ex = 971 \<and> m = 2 ^ 53) then (if neg then NInf else PInf)
            else Finite (if neg then - m else m) ex))"

text \<open>
  \<open>float(s)\<close> on a token without white space: an optional sign, then \<open>inf\<close>,
  \<open>infinity\<close> or \<open>nan\<close> in any case, or a decimal numeral (digits, an optional point
  and fraction, an optional exponent) with at least one digit before or after the
  point. The decimal value is rounded correctly.
\<close>

definition lower :: "string \<Rightarrow> string" where
  "lower s =
     map (\<lambda>c. if 65 \<le> (of_char c :: int) \<and> (of_char c :: int) \<le> 90
               then char_of ((of_char c :: int) + 32) else c) s"

definition is_exp_char :: "char \<Rightarrow> bool" where
  "is_exp_char c = (c = CHR ''e'' \<or> c = CHR ''E'')"

definition py_float_exponent :: "string \<Rightarrow> int option" where
  "py_float_exponent etail =
     (if etail = [] then Some 0
      else (let (eneg, edig) = strip_sign (tl etail)
            in case digit_seq 10 edig of
                 None \<Rightarrow> None
               | Some ds \<Rightarrow> Some (if eneg then - int_of_digits 10 ds
                                 else int_of_digits 10 ds)))"

definition py_float :: "string \<Rightarrow> py_error + pyfloat" where
  "py_float tok =
     (let (neg, body) = strip_sign tok; low = lower body
      in if low = ''inf'' \<or> low = ''infinity'' then Inr (if neg then NInf else PInf)
         else if low = ''nan'' then Inr NaN
         else
           (let mant = takeWhile (\<lambda>c. \<not> is_exp_char c) body;
                etail = dropWhile (\<lambda>c. \<not> is_exp_char c) body;
                ip = takeWhile (\<lambda>c. c \<noteq> CHR ''.'') mant;
                ftail = dropWhile (\<lambda>c. c \<noteq> CHR ''.'') mant;
                fp = (if ftail = [] then [] else tl ftail);
                ipd = (if ip = [] then Some [] else digit_seq 10 ip);
                fpd = (if fp = [] then Some [] else digit_seq 10 fp)
            in case (ipd, fpd, py_float_exponent etail) of
                 (Some ds, Some fs, Some e) \<Rightarrow>
                   if ip = [] \<and> fp = [] then Inl ValueError
                   else (let e10 = e - int (length fs)
                         in Inr (round_double neg (int_of_digits 10 (ds @ fs) * 10 ^ nat e10)
                                                  (10 ^ nat (- e10))))
               | _ \<Rightarrow> Inl ValueError))"

fun float_sign :: "pyfloat \<Rightarrow> int" where
  "float_sign (Finite m e) = sgn m"
| "float_sign PInf = 1"
| "float_sign NInf = - 1"
| "float_sign NaN = 0"

text \<open>The product \<open>x * y\<close> of two floats.\<close>

definition fmul :: "pyfloat \<Rightarrow> pyfloat \<Rightarrow> pyfloat" where
  "fmul x y =
     (case (x, y) of
        (Finite a ea, Finite b eb) \<Rightarrow>
          round_double (a * b < 0) (\<bar>a * b\<bar> * 2 ^ nat (ea + eb)) (2 ^ nat (- (ea + eb)))
      | _ \<Rightarrow>
          if float_sign x * float_sign y = 0 then NaN
          else if 0 < float_sign x * float_sign y then PInf else NInf)"

text \<open>
  \<open>int(x)\<close> of a float cuts the fraction off (rounds towards zero); it raises
  \<open>OverflowError\<close> on an infinity and \<open>ValueError\<close> on a NaN.
\<close>

fun int_of_float :: "pyfloat \<Rightarrow> py_error + int" where
  "int_of_float (Finite m e) =
     Inr (if 0 \<le> e then m * 2 ^ nat e else sgn m * (\<bar>m\<bar> div 2 ^ nat (- e)))"
| "int_of_float PInf = Inl OverflowError"
| "int_of_float NInf = Inl OverflowError"
| "int_of_float NaN = Inl ValueError"

text \<open>The rational number that a float stands for (zero for an infinity or a NaN).\<close>

definition float_value :: "pyfloat \<Rightarrow> rat" where
  "float_value x =
     (case x of
        Finite m e \<Rightarrow> (if 0 \<le> e then of_int (m * 2 ^ nat e) else of_int m / of_int (2 ^ nat (- e)))
      | _ \<Rightarrow> 0)"

subsection \<open>The decode context\<close>

text \<open>
  The dictionary \<open>context\<close> of \<open>parse_file\<close>. The keys \<open>old_time\<close>, \<open>trips\<close>,
  \<open>engine\<close> and \<open>time_speed\<close> exist from the start; the other keys are created by the
  first assignment, so they are optional here and reading an absent one is a
  \<open>KeyError\<close>. Times are integer milliseconds (the initial \<open>0.0\<close> of \<open>old_time\<close> is the
  number zero). The type \<open>'v\<close> is the type of a decoded signal value, which the parser
  stores and never inspects.
\<close>

record 'v decode_context =
  old_time :: int
  trips :: int
  engine :: bool
  time_speed :: "(int \<times> 'v) list list"
  time :: "int option"
  speed :: "'v option"
  speed_unit :: "'v option"
  rpm :: "'v option"
  ign :: "'v option"
  on :: "'v option"

subsection \<open>Module-level configuration\<close>

text \<open>
  The message identifiers are module constants, and the signal decoders and the engine
  decision are module functions that the integrator replaces for a given bus layout.
  They are collected in one record so that the parser can be studied for every choice
  of them; \<open>reference_config\<close> below holds the values of the source file. The function
  \<open>get_engine_signal_EV_a\<close> called by \<open>process_frame\<close> is not defined in the module
  (only \<open>get_engine_ev_a\<close> is), so it is optional and calling it when absent is a
  \<open>NameError\<close>.
\<close>

record 'v config =
  SPD_MSG_1 :: int
  ENG_MSG_STD :: int
  ENG_MSG_EV :: int
  get_speed_signal_a :: "string list \<Rightarrow> 'v"
  get_speed_signal_b :: "string list \<Rightarrow> 'v"
  get_engine_signal_a :: "string list \<Rightarrow> 'v"
  get_engine_signal_b :: "string list \<Rightarrow> 'v"
  get_engine_signal_EV_a :: "(string list \<Rightarrow> 'v) option"
  engine_status :: "'v decode_context \<Rightarrow> bool"

text \<open>The source's \<open>engine_status\<close>: every branch of the vehicle-type chain returns True.\<close>

definition engine_status_src :: "bool \<Rightarrow> bool \<Rightarrow> bool \<Rightarrow> bool \<Rightarrow> 'v decode_context \<Rightarrow> bool" where
  "engine_status_src EV PHEV HEV STANDARD ctx =
     (if EV then True
      else if PHEV then True
      else if HEV then True
      else if STANDARD then True
      else True)"

definition reference_config :: "int config" where
  "reference_config =
     \<lparr> SPD_MSG_1 = 0, ENG_MSG_STD = 0, ENG_MSG_EV = 0,
       get_speed_signal_a = (\<lambda>frame. 0),
       get_speed_signal_b = (\<lambda>frame. 0),
       get_engine_signal_a = (\<lambda>frame. 0),
       get_engine_signal_b = (\<lambda>frame. 0),
       get_engine_signal_EV_a = None,
       engine_status = engine_status_src False False False True \<rparr>"

subsection \<open>The trip segmentation callback\<close>

text \<open>
  The engine branch, written twice in the source (standard and EV identifier). The
  \<open>print\<close> of each transition reads \<open>context['time']\<close>.
\<close>

definition engine_event :: "'v config \<Rightarrow> 'v decode_context \<Rightarrow> py_error + 'v decode_context" where
  "engine_event cfg ctx =
     (let eng = engine_status cfg ctx in
      if \<not> eng \<and> engine ctx then
        (case time ctx of
           None \<Rightarrow> Inl KeyError
         | Some t \<Rightarrow> Inr (ctx\<lparr> trips := trips ctx + 1,
                              time_speed := time_speed ctx @ [[]],
                              engine := False \<rparr>))
      else if eng \<and> \<not> engine ctx then
        (case time ctx of
           None \<Rightarrow> Inl KeyError
         | Some t \<Rightarrow> Inr (ctx\<lparr> engine := True \<rparr>))
      else Inr ctx)"

text \<open>The speed branch: drop the sample while the engine is off, else append it.\<close>

definition speed_event :: "'v decode_context \<Rightarrow> py_error + 'v decode_context" where
  "speed_event ctx =
     (if \<not> engine ctx then Inr ctx
      else
        (case py_index (time_speed ctx) (trips ctx) of
           None \<Rightarrow> Inl IndexError
         | Some k \<Rightarrow>
             (case time ctx of
                None \<Rightarrow> Inl KeyError
              | Some t \<Rightarrow>
                  (case speed ctx of
                     None \<Rightarrow> Inl KeyError
                   | Some v \<Rightarrow>
                       Inr (ctx\<lparr> time_speed :=
                                    (time_speed ctx)
                                      [k := time_speed ctx ! k @ [(t - old_time ctx, v)]],
                                 old_time := t \<rparr>)))))"

definition speed_events_logic :: "'v config \<Rightarrow> int \<Rightarrow> 'v decode_context \<Rightarrow> py_error + 'v decode_context" where
  "speed_events_logic cfg msg_id ctx =
     (if msg_id = SPD_MSG_1 cfg then speed_event ctx
      else if msg_id = ENG_MSG_STD cfg then engine_event cfg ctx
      else if msg_id = ENG_MSG_EV cfg then engine_event cfg ctx
      else Inr ctx)"

subsection \<open>The dispatcher\<close>

definition process_frame ::
  "'v config \<Rightarrow> int \<Rightarrow> string list \<Rightarrow> (int \<Rightarrow> 'v decode_context \<Rightarrow> py_error + 'v decode_context)
     \<Rightarrow> 'v decode_context \<Rightarrow> py_error + 'v decode_context" where
  "process_frame cfg msg_id frame func ctx =
     (if msg_id = SPD_MSG_1 cfg then
        func msg_id (ctx\<lparr> speed := Some (get_speed_signal_a cfg frame),
                     speed_unit := Some (get_speed_signal_b cfg frame) \<rparr>)
      else if msg_id = ENG_MSG_STD cfg then
        func msg_id (ctx\<lparr> rpm := Some (get_engine_signal_a cfg frame),
                     ign := Some (get_engine_signal_b cfg frame) \<rparr>)
      else if msg_id = ENG_MSG_EV cfg then
        (case get_engine_signal_EV_a cfg of
           None \<Rightarrow> Inl NameError
         | Some g \<Rightarrow> func msg_id (ctx\<lparr> on := Some (g frame) \<rparr>))
      else Inr ctx)"

subsection \<open>Reading a line\<close>

text \<open>\<open>get_offset_ms(offset)\<close> is \<open>int(float(offset[0]) * 1000)\<close>.\<close>

definition get_offset_ms :: "string list \<Rightarrow> py_error + int" where
  "get_offset_ms offset =
     (case py_getitem offset 0 of
        Inl e \<Rightarrow> Inl e
      | Inr tok \<Rightarrow>
          (case py_float tok of
             Inl e \<Rightarrow> Inl e
           | Inr x \<Rightarrow> int_of_float (fmul x (Finite 1000 0))))"

text \<open>\<open>get_frame(line)\<close> is \<open>line[6:int(line[5]) + 6]\<close>.\<close>

definition get_frame :: "string list \<Rightarrow> py_error + string list" where
  "get_frame line =
     (case py_getitem line 5 of
        Inl e \<Rightarrow> Inl e
      | Inr tok \<Rightarrow>
          (case py_int 10 tok of
             Inl e \<Rightarrow> Inl e
           | Inr n \<Rightarrow> Inr (py_slice line 6 (n + 6))))"

subsection \<open>The parse pass\<close>

text \<open>
  The body of the loop of \<open>parse_file\<close> for a line after the header, in the order of
  the source: split, time stamp, identifier, payload, dispatch.
\<close>

definition parse_line :: "'v config \<Rightarrow> string \<Rightarrow> 'v decode_context \<Rightarrow> py_error + 'v decode_context" where
  "parse_line cfg line ctx =
     (let split = py_split line
      in case get_offset_ms split of
           Inl e \<Rightarrow> Inl e
         | Inr t \<Rightarrow>
             (case py_getitem split 2 of
                Inl e \<Rightarrow> Inl e
              | Inr tok \<Rightarrow>
                  (case py_int 16 tok of
                     Inl e \<Rightarrow> Inl e
                   | Inr msg_id \<Rightarrow>
                       (case get_frame split of
                          Inl e \<Rightarrow> Inl e
                        | Inr frame \<Rightarrow>
                            process_frame cfg msg_id frame (speed_events_logic cfg)
                              (ctx\<lparr> time := Some t \<rparr>)))))"

text \<open>The loop over the lines of the file; \<open>count\<close> skips the three header lines.\<close>

fun parse_lines :: "'v config \<Rightarrow> nat \<Rightarrow> string list \<Rightarrow> 'v decode_context \<Rightarrow> py_error + 'v decode_context" where
  "parse_lines cfg count [] ctx = Inr ctx"
| "parse_lines cfg count (line # rest) ctx =
     (if count < 3 then parse_lines cfg (count + 1) rest ctx
      else (case parse_line cfg line ctx of
              Inl e \<Rightarrow> Inl e
            | Inr ctx' \<Rightarrow> parse_lines cfg count rest ctx'))"

definition initial_context :: "'v config \<Rightarrow> 'v decode_context" where
  "initial_context cfg =
     (let context = \<lparr> old_time = 0, trips = 0, engine = False, time_speed = [[]],
                       time = None, speed = None, speed_unit = None,
                       rpm = None, ign = None, on = None \<rparr>
      in context\<lparr> engine := engine_status cfg context \<rparr>)"

text \<open>\<open>parse_file\<close> on the lines of the opened file.\<close>

definition parse_file :: "'v config \<Rightarrow> string list \<Rightarrow> py_error + (int \<times> 'v) list list" where
  "parse_file cfg lines =
     (case parse_lines cfg 0 lines (initial_context cfg) of
        Inl e \<Rightarrow> Inl e
      | Inr ctx \<Rightarrow> Inr (time_speed ctx))"

subsection \<open>Observing a parse pass\<close>

text \<open>
  \<open>parse_trace\<close> lists the context after every iteration of the loop, up to the first
  exception; \<open>engine_trace\<close> is the value of the \<open>engine\<close> key at the start and after
  every iteration, and \<open>on_off_edges\<close> counts the places where it goes from True to
  False.
\<close>

fun parse_trace :: "'v config \<Rightarrow> nat \<Rightarrow> string list \<Rightarrow> 'v decode_context \<Rightarrow> 'v decode_context list" where
  "parse_trace cfg count [] ctx = []"
| "parse_trace cfg count (line # rest) ctx =
     (if count < 3 then ctx # parse_trace cfg (count + 1) rest ctx
      else (case parse_line cfg line ctx of
              Inl e \<Rightarrow> []
            | Inr ctx' \<Rightarrow> ctx' # parse_trace cfg count rest ctx'))"

definition engine_trace :: "'v config \<Rightarrow> string list \<Rightarrow> bool list" where
  "engine_trace cfg lines =
     map engine (initial_context cfg # parse_trace cfg 0 lines (initial_context cfg))"

fun on_off_edges :: "bool list \<Rightarrow> nat" where
  "on_off_edges (a # b # bs) = (if a \<and> \<not> b then 1 else 0) + on_off_edges (b # bs)"
| "on_off_edges bs = 0"

text \<open>
  A line decodes when the three reading steps of the loop body succeed on it: the time
  stamp, the identifier \<open>int(split[2], 16)\<close> and the payload.
\<close>

definition line_decodes :: "string \<Rightarrow> bool" where
  "line_decodes line =
     (\<not> isl (get_offset_ms (py_split line))
      \<and> \<not> isl (case py_getitem (py_split line) 2 of Inl e \<Rightarrow> Inl e | Inr tok \<Rightarrow> py_int 16 tok)
      \<and> \<not> isl (get_frame (py_split line)))"

subsection \<open>The time stamps behind a trip\<close>

text \<open>
  \<open>speed_event_times\<close> observes a pass from outside: it follows the contexts of the
  loop and records, trip by trip, the time stamp of every line at which a sample was
  appended (the trip list changed without growing), and opens a new record when the
  trip list grew.
\<close>

definition observe_step ::
  "'v decode_context \<Rightarrow> 'v decode_context \<Rightarrow> int list list \<Rightarrow> int list list" where
  "observe_step c c' g =
     (if length (time_speed c') \<noteq> length (time_speed c) then g @ [[]]
      else if time_speed c' \<noteq> time_speed c
        then (case time c' of None \<Rightarrow> g | Some t \<Rightarrow> butlast g @ [last g @ [t]])
      else g)"

fun speed_times_from ::
  "'v config \<Rightarrow> nat \<Rightarrow> string list \<Rightarrow> 'v decode_context \<Rightarrow> int list list \<Rightarrow> int list list" where
  "speed_times_from cfg count [] ctx g = g"
| "speed_times_from cfg count (line # rest) ctx g =
     (if count < 3 then speed_times_from cfg (count + 1) rest ctx g
      else (case parse_line cfg line ctx of
              Inl e \<Rightarrow> g
            | Inr ctx' \<Rightarrow> speed_times_from cfg count rest ctx' (observe_step ctx ctx' g)))"

definition speed_event_times :: "'v config \<Rightarrow> string list \<Rightarrow> int list list" where
  "speed_event_times cfg lines = speed_times_from cfg 0 lines (initial_context cfg) [[]]"

text \<open>
  \<open>deltas p ts\<close> are the differences of consecutive time stamps, the first one taken
  against \<open>p\<close>; \<open>expected_deltas\<close> does this trip by trip, each trip starting from the
  last time stamp before it.
\<close>

fun deltas :: "int \<Rightarrow> int list \<Rightarrow> int list" where
  "deltas p [] = []"
| "deltas p (t # ts) = (t - p) # deltas t ts"

fun expected_deltas :: "int \<Rightarrow> int list list \<Rightarrow> int list list" where
  "expected_deltas p [] = []"
| "expected_deltas p (g # gs) = deltas p g # expected_deltas (last (p # g)) gs"

definition times_inv :: "'v decode_context \<Rightarrow> int list list \<Rightarrow> bool" where
  "times_inv ctx g =
     (g \<noteq> [] \<and> length g = length (time_speed ctx) \<and> trips ctx = int (length g) - 1
      \<and> map (map fst) (time_speed ctx) = expected_deltas 0 g
      \<and> old_time ctx = last (0 # concat g))"

text \<open>The three effects that one line can have on the trips.\<close>

datatype step_kind = Unchanged | Appended int | Opened

definition step_is :: "'v decode_context \<Rightarrow> 'v decode_context \<Rightarrow> step_kind \<Rightarrow> bool" where
  "step_is c c' k =
     (case k of
        Unchanged \<Rightarrow> time_speed c' = time_speed c \<and> trips c' = trips c \<and> old_time c' = old_time c
      | Appended t \<Rightarrow>
          (\<exists>i v. py_index (time_speed c) (trips c) = Some i \<and> time c' = Some t
             \<and> time_speed c' = (time_speed c)[i := time_speed c ! i @ [(t - old_time c, v)]]
             \<and> trips c' = trips c \<and> old_time c' = t)
      | Opened \<Rightarrow> time_speed c' = time_speed c @ [[]] \<and> trips c' = trips c + 1
             \<and> old_time c' = old_time c)"

subsection \<open>A configuration with distinct identifiers\<close>

text \<open>
  For concrete runs: speed frames have identifier \<open>0x100\<close>, engine frames \<open>0x200\<close> and
  \<open>0x300\<close>; a signal is the first payload byte read as a hexadecimal number, and the
  engine counts as off exactly when the last decoded \<open>rpm\<close> is zero.
\<close>

definition first_byte :: "string list \<Rightarrow> int" where
  "first_byte frame =
     (case frame of
        [] \<Rightarrow> 0
      | b # bs \<Rightarrow> (case py_int 16 b of Inl e \<Rightarrow> 0 | Inr n \<Rightarrow> n))"

definition example_config :: "int config" where
  "example_config =
     \<lparr> SPD_MSG_1 = 256, ENG_MSG_STD = 512, ENG_MSG_EV = 768,
       get_speed_signal_a = first_byte,
       get_speed_signal_b = (\<lambda>frame. 0),
       get_engine_signal_a = first_byte,
       get_engine_signal_b = (\<lambda>frame. 0),
       get_engine_signal_EV_a = Some first_byte,
       engine_status = (\<lambda>ctx. rpm ctx \<noteq> Some 0) \<rparr>"

definition example_log :: "string list" where
  "example_log =
     [''date Thu Dec 19 01:32:07.156 pm 2019'',
      ''base hex  timestamps absolute'',
      ''internal events logged'',
      ''   1.000000 1  100             Rx   d 2 05 00'',
      ''   2.000000 1  200             Rx   d 1 00'',
      ''   2.500000 1  100             Rx   d 2 07 00'',
      ''   3.000000 1  200             Rx   d 1 10'',
      ''   3.500000 1  100             Rx   d 2 09 00'',
      ''   4.000000 1  100             Rx   d 2 0a 00'']"

subsection \<open>Logs for the reference configuration\<close>

text \<open>
  The two data lines of the docstring of \<open>parse_file\<close> with the reference identifier
  \<open>000\<close> in place of the masked one, and a frame with another identifier between
  them; and a log whose only data line declares six payload bytes and carries two.
\<close>

definition reference_log :: "string list" where
  "reference_log =
     [''date Thu Dec 19 01:32:07.156 pm 2019'',
      ''base hex  timestamps absolute'',
      ''internal events logged'',
      ''  12.940318 1  000             Tx   d 6 00 00 00 00 00 00  Length = 205987 BitCount = 106 ID = 0'',
      ''  13.040310 1  2A0             Rx   d 2 01 00'',
      ''  13.140300 1  000             Tx   d 6 01 00 00 00 00 00  Length = 205987 BitCount = 106 ID = 0'']"

definition truncated_line :: "string" where
  "truncated_line = ''  12.940318 1  000             Tx   d 6 00 00''"

definition truncated_log :: "string list" where
  "truncated_log =
     [''date Thu Dec 19 01:32:07.156 pm 2019'',
      ''base hex  timestamps absolute'',
      ''internal events logged'',
      truncated_line]"

text \<open>
  The docstring example itself, and the reference configuration with a speed decoder
  that reads the first payload byte.
\<close>

definition docstring_line_1 :: "string" where
  "docstring_line_1 =
     ''  12.940318 1  000             Tx   d 6 00 00 00 00 00 00  Length = 205987 BitCount = 106 ID = 0''"

definition docstring_line_2 :: "string" where
  "docstring_line_2 =
     ''  13.140300 1  000             Tx   d 6 01 00 00 00 00 00  Length = 205987 BitCount = 106 ID = 0''"

definition docstring_log :: "string list" where
  "docstring_log =
     [''date Thu Dec 19 01:32:07.156 pm 2019'',
      ''base hex  timestamps absolute'',
      ''internal events logged'',
      docstring_line_1,
      docstring_line_2]"

definition docstring_config :: "int config" where
  "docstring_config = reference_config\<lparr> get_speed_signal_a := first_byte \<rparr>"

text \<open>The state that every pass with the reference configuration keeps.\<close>

definition ref_inv :: "int decode_context \<Rightarrow> bool" where
  "ref_inv ctx = (engine ctx \<and> length (time_speed ctx) = 1 \<and> trips ctx = 0)"

subsection \<open>The replay and sampling threads\<close>

text \<open>
  The class \<open>Speed\<close> is the cell shared by \<open>ReplayThread\<close> and \<open>ParseThread\<close>; its
  attributes \<open>s\<close> and \<open>e\<close> are \<open>s_attr\<close> and \<open>e_attr\<close> here (\<open>e\<close> is True until the
  replay has ended). The two threads run under the interpreter lock, so a run of the
  pair is an interleaving of their reads and writes of the cell: a schedule names the
  thread that does its next access. \<open>replay_step\<close> is the next access of
  \<open>replay_speed\<close> (one \<open>set_speed\<close> per sample, then \<open>end\<close>), \<open>read_step\<close> the next
  access of \<open>read_speed\<close> (the test \<open>get_end()\<close> of the \<open>while\<close>, then \<open>get_speed()\<close>).
  The delays take time and touch nothing; \<open>speeds_read\<close> lists the speeds that the
  consumer has read.
\<close>

record Speed =
  s_attr :: pyfloat
  e_attr :: bool

definition Speed_init :: Speed where
  "Speed_init = \<lparr> s_attr = Finite 0 0, e_attr = True \<rparr>"

definition set_speed :: "Speed \<Rightarrow> pyfloat \<Rightarrow> Speed" where
  "set_speed self new_speed = self\<lparr> s_attr := new_speed \<rparr>"

definition end_replay :: "Speed \<Rightarrow> Speed" where
  "end_replay self = self\<lparr> e_attr := False \<rparr>"

definition get_speed :: "Speed \<Rightarrow> pyfloat" where
  "get_speed self = s_attr self"

definition get_end :: "Speed \<Rightarrow> bool" where
  "get_end self = e_attr self"

datatype consumer_pc = AtWhile | AtGetSpeed | Returned

record pipeline =
  shared :: Speed
  time_speed_left :: "(int \<times> pyfloat) list"
  replay_ended :: bool
  consumer :: consumer_pc
  old_speed :: pyfloat
  speeds_read :: "pyfloat list"

definition start_dist :: "(int \<times> pyfloat) list \<Rightarrow> pipeline" where
  "start_dist samples =
     \<lparr> shared = Speed_init, time_speed_left = samples, replay_ended = False,
       consumer = AtWhile, old_speed = Finite 0 0, speeds_read = [] \<rparr>"

definition replay_step :: "pipeline \<Rightarrow> pipeline" where
  "replay_step st =
     (case time_speed_left st of
        sample # rest \<Rightarrow>
          st\<lparr> shared := set_speed (shared st) (snd sample), time_speed_left := rest \<rparr>
      | [] \<Rightarrow>
          if replay_ended st then st
          else st\<lparr> shared := end_replay (shared st), replay_ended := True \<rparr>)"

definition read_step :: "pipeline \<Rightarrow> pipeline" where
  "read_step st =
     (case consumer st of
        AtWhile \<Rightarrow>
          if get_end (shared st) then st\<lparr> consumer := AtGetSpeed \<rparr>
          else st\<lparr> consumer := Returned \<rparr>
      | AtGetSpeed \<Rightarrow>
          st\<lparr> speeds_read := speeds_read st @ [get_speed (shared st)],
              old_speed := get_speed (shared st),
              consumer := AtWhile \<rparr>
      | Returned \<Rightarrow> st)"

datatype thread = ReplayThread | ParseThread

fun run_schedule :: "thread list \<Rightarrow> pipeline \<Rightarrow> pipeline" where
  "run_schedule [] st = st"
| "run_schedule (ReplayThread # sched) st = run_schedule sched (replay_step st)"
| "run_schedule (ParseThread # sched) st = run_schedule sched (read_step st)"

definition final_speed :: "(int \<times> pyfloat) list \<Rightarrow> pyfloat" where
  "final_speed samples = (if samples = [] then Finite 0 0 else snd (last samples))"

definition pipeline_inv :: "(int \<times> pyfloat) list \<Rightarrow> pipeline \<Rightarrow> bool" where
  "pipeline_inv samples st =
     ((\<exists>played. played @ time_speed_left st = samples
               \<and> get_speed (shared st) = final_speed played)
      \<and> (replay_ended st \<longrightarrow> time_speed_left st = [])
      \<and> get_end (shared st) = (\<not> replay_ended st)
      \<and> (consumer st = Returned \<longrightarrow> replay_ended st)
      \<and> list_all (\<lambda>v. v \<in> set (Finite 0 0 # map snd samples)) (speeds_read st))"

section \<open>The automation client (Python_CANoe.py)\<close>

text \<open>
  The automation client talks to an external application. Its state is a value of an
  arbitrary type; \<open>Running\<close> reads the property \<open>Measurement.Running\<close>, \<open>Start\<close> is the
  call \<open>Measurement.Start()\<close> and \<open>sleep_1s\<close> is what one second of waiting does to it.
\<close>

record 'a application =
  Running :: "'a \<Rightarrow> bool"
  Start :: "'a \<Rightarrow> 'a"
  sleep_1s :: "'a \<Rightarrow> 'a"

text \<open>The \<open>while\<close> loop of \<open>start_Measurement\<close>, from the state \<open>(app, retry)\<close>.\<close>

function start_loop :: "'a application \<Rightarrow> nat \<Rightarrow> 'a \<Rightarrow> nat \<Rightarrow> 'a \<times> nat" where
  "start_loop m retry_counter app retry =
     (if \<not> Running m app \<and> retry < retry_counter
      then start_loop m retry_counter (sleep_1s m (Start m app)) (retry + 1)
      else (app, retry))"
  by pat_completeness auto
termination
  by (relation "measure (\<lambda>(m, retry_counter, app, retry). retry_counter - retry)") auto

declare start_loop.simps [simp del]

text \<open>
  \<open>start_Measurement\<close>: the application after the call, and the exception if one is
  raised.
\<close>

definition start_Measurement :: "'a application \<Rightarrow> 'a \<Rightarrow> 'a \<times> py_error option" where
  "start_Measurement m app =
     (let retry_counter = 5;
          (app', retry) = start_loop m retry_counter app 0
      in (app', if retry = retry_counter then Some RuntimeWarning else None))"

text \<open>
  An application that counts the calls of \<open>Start\<close> and is running from the \<open>n\<close>-th
  call on.
\<close>

definition starts_after :: "nat \<Rightarrow> nat application" where
  "starts_after n = \<lparr> Running = (\<lambda>calls. n \<le> calls), Start = Suc, sleep_1s = (\<lambda>calls. calls) \<rparr>"

section \<open>Properties\<close>

subsection \<open>Closed runs of the example\<close>

lemma example_run:
  "parse_file example_config example_log = Inr [[(1000, 5)], [(2500, 9), (500, 10)]]"
  by code_simp

lemma example_edges: "on_off_edges (engine_trace example_config example_log) = 1"
  by code_simp

subsection \<open>Trips and engine edges\<close>

text \<open>
  One iteration of the loop either keeps the number of trips or, exactly when the
  \<open>engine\<close> key goes from True to False, adds one.
\<close>

lemma engine_event_length:
  "engine_event cfg ctx = Inr ctx' \<Longrightarrow>
     length (time_speed ctx') =
       length (time_speed ctx) + (if engine ctx \<and> \<not> engine ctx' then 1 else 0)"
  by (auto simp: engine_event_def Let_def split: if_splits option.splits)

lemma speed_events_logic_length:
  "speed_events_logic cfg msg_id ctx = Inr ctx' \<Longrightarrow>
     length (time_speed ctx') =
       length (time_speed ctx) + (if engine ctx \<and> \<not> engine ctx' then 1 else 0)"
  unfolding speed_events_logic_def speed_event_def
  by (auto split: if_splits option.splits dest: engine_event_length)

lemma process_frame_length:
  assumes "process_frame cfg msg_id frame (speed_events_logic cfg) ctx = Inr ctx'"
  shows "length (time_speed ctx') =
           length (time_speed ctx) + (if engine ctx \<and> \<not> engine ctx' then 1 else 0)"
  using assms unfolding process_frame_def
  by (auto split: if_splits option.splits dest!: speed_events_logic_length)

lemma parse_line_length:
  assumes "parse_line cfg line ctx = Inr ctx'"
  shows "length (time_speed ctx') =
           length (time_speed ctx) + (if engine ctx \<and> \<not> engine ctx' then 1 else 0)"
  using assms unfolding parse_line_def Let_def
  by (auto split: sum.splits dest!: process_frame_length)

lemma parse_lines_length:
  "parse_lines cfg count lines ctx = Inr ctx' \<Longrightarrow>
     length (time_speed ctx') =
       length (time_speed ctx) + on_off_edges (map engine (ctx # parse_trace cfg count lines ctx))"
proof (induction cfg count lines ctx rule: parse_lines.induct)
  case (1 cfg count ctx)
  then show ?case by simp
next
  case (2 cfg count line rest ctx)
  show ?case
  proof (cases "count < 3")
    case True
    with 2 show ?thesis by simp
  next
    case False
    with "2.prems" obtain c1 where c1: "parse_line cfg line ctx = Inr c1"
      and rest: "parse_lines cfg count rest c1 = Inr ctx'"
      by (auto split: sum.splits)
    from "2.IH"(2) [OF False c1 rest] parse_line_length [OF c1] False c1
    show ?thesis by simp
  qed
qed

text \<open>
  Claim C1. Whenever \<open>parse_file\<close> returns a trip list, its length is one more than the
  number of True-to-False edges of the \<open>engine\<close> key over the pass: the list starts
  with one open trip, and a trip is appended at each such edge and nowhere else. This
  holds for every configuration of identifiers and decoders.
\<close>

theorem trips_count_on_off_edges:
  assumes "parse_file cfg lines = Inr ts"
  shows "length ts = 1 + on_off_edges (engine_trace cfg lines)"
proof -
  from assms obtain ctx where run: "parse_lines cfg 0 lines (initial_context cfg) = Inr ctx"
    and ts: "ts = time_speed ctx"
    by (auto simp: parse_file_def split: sum.splits)
  have "length (time_speed (initial_context cfg)) = 1"
    by (simp add: initial_context_def Let_def)
  with parse_lines_length [OF run] ts show ?thesis
    by (simp add: engine_trace_def)
qed

theorem trips_count_on_off_edges_witness:
  "parse_file example_config example_log = Inr [[(1000, 5)], [(2500, 9), (500, 10)]]
   \<and> length [[(1000, 5)], [(2500, 9), (500, 10 :: int)]]
       = 1 + on_off_edges (engine_trace example_config example_log)
   \<and> on_off_edges (engine_trace example_config example_log) = 1"
  using trips_count_on_off_edges [OF example_run] example_run example_edges by simp

subsection \<open>The time stamp of a line\<close>

lemma stamp_item: "py_getitem [''12.9409'', ''1''] 0 = Inr ''12.9409''"
  by code_simp

lemma stamp_float: "py_float ''12.9409'' = Inr (Finite 7285079052229856 (- 49))"
  by code_simp

lemma stamp_product:
  "fmul (Finite 7285079052229856 (- 49)) (Finite 1000 0) = Finite 7114335011943219 (- 39)"
  by code_simp

lemma stamp_ms: "get_offset_ms [''12.9409'', ''1''] = Inr 12940"
  by code_simp

text \<open>
  The product is the product of doubles: the token \<open>1.001\<close> is read as the double just
  below 1.001, its product with 1000 is the double just below 1001, and the time stamp
  is 1000.
\<close>

lemma stamp_binary: "get_offset_ms [''1.001''] = Inr 1000"
  by code_simp

lemma round_half_even_nonneg: "0 \<le> n \<Longrightarrow> 0 < d \<Longrightarrow> 0 \<le> round_half_even n d"
  by (simp add: round_half_even_def Let_def pos_imp_zdiv_nonneg_iff)

lemma round_double_nonneg:
  assumes "round_double False n d = Finite m e" and "0 \<le> n" and "0 < d"
  shows "0 \<le> m"
proof (cases "n = 0")
  case True
  with assms show ?thesis by (simp add: round_double_def)
next
  case False
  define ex where "ex = max (floor_log2 n d - 52) (- 1074)"
  have "0 \<le> round_half_even (n * 2 ^ nat (- ex)) (d * 2 ^ nat ex)"
    using assms(2,3) by (intro round_half_even_nonneg) simp_all
  with assms(1) False show ?thesis
    by (auto simp: round_double_def Let_def ex_def split: if_splits)
qed

lemma int_of_float_floor:
  assumes "0 \<le> m"
  shows "int_of_float (Finite m e) = Inr \<lfloor>float_value (Finite m e)\<rfloor>"
proof (cases "0 \<le> e")
  case True
  have "\<lfloor>(of_int (m * 2 ^ nat e) :: rat)\<rfloor> = m * 2 ^ nat e"
    by (rule floor_of_int)
  with True show ?thesis
    by (simp add: float_value_def del: of_int_mult of_int_power)
next
  case False
  have "\<lfloor>(of_int m :: rat) / of_int (2 ^ nat (- e))\<rfloor> = m div 2 ^ nat (- e)"
    by (rule floor_divide_of_int_eq)
  moreover have "sgn m * (\<bar>m\<bar> div 2 ^ nat (- e)) = m div 2 ^ nat (- e)"
    using assms by (cases "m = 0") (simp_all add: sgn_if)
  ultimately show ?thesis using False by (simp add: float_value_def)
qed

text \<open>
  Claim C6. For a time stamp token that reads as a float \<open>seconds \<ge> 0\<close> whose product
  with 1000 is finite, \<open>get_offset_ms\<close> returns the floor of the float product
  \<open>seconds * 1000\<close>: the fraction is cut off, not rounded (12.9409 gives 12940, not
  12941).
\<close>

theorem get_offset_ms_truncates:
  assumes "py_getitem offset 0 = Inr tok" and "py_float tok = Inr (Finite a ea)" and "0 \<le> a"
    and "fmul (Finite a ea) (Finite 1000 0) = Finite m e"
  shows "get_offset_ms offset = Inr \<lfloor>float_value (fmul (Finite a ea) (Finite 1000 0))\<rfloor>
       \<and> 0 \<le> float_value (fmul (Finite a ea) (Finite 1000 0))"
proof -
  have "round_double False (\<bar>a * 1000\<bar> * 2 ^ nat ea) (2 ^ nat (- ea)) = Finite m e"
    using assms(3,4) by (simp add: fmul_def mult_less_0_iff)
  then have m: "0 \<le> m" by (rule round_double_nonneg) simp_all
  have "0 \<le> float_value (Finite m e)"
    using m by (simp add: float_value_def)
  with int_of_float_floor [OF m] assms show ?thesis
    by (simp add: get_offset_ms_def)
qed

theorem get_offset_ms_truncates_witness:
  "py_getitem [''12.9409'', ''1''] 0 = Inr ''12.9409''
   \<and> py_float ''12.9409'' = Inr (Finite 7285079052229856 (- 49))
   \<and> fmul (Finite 7285079052229856 (- 49)) (Finite 1000 0) = Finite 7114335011943219 (- 39)
   \<and> get_offset_ms [''12.9409'', ''1''] = Inr 12940"
  using get_offset_ms_truncates [OF stamp_item stamp_float _ stamp_product]
    stamp_item stamp_float stamp_product stamp_ms by simp

subsection \<open>Deltas and time stamps\<close>

lemma example_times: "speed_event_times example_config example_log = [[1000], [3500, 4000]]"
  by code_simp

lemma deltas_snoc: "deltas p (ts @ [t]) = deltas p ts @ [t - last (p # ts)]"
  by (induction ts arbitrary: p) simp_all

lemma length_deltas: "length (deltas p ts) = length ts"
  by (induction ts arbitrary: p) simp_all

lemma sum_deltas: "sum_list (deltas p ts) = last (p # ts) - p"
  by (induction ts arbitrary: p) simp_all

lemma last_cons_append: "last (p # g @ r) = last (last (p # g) # r)"
  by (cases r) simp_all

lemma expected_deltas_snoc:
  "expected_deltas p (gs @ [g]) = expected_deltas p gs @ [deltas (last (p # concat gs)) g]"
proof (induction gs arbitrary: p)
  case Nil
  then show ?case by simp
next
  case (Cons g0 gs)
  have "last (p # concat (g0 # gs)) = last (last (p # g0) # concat gs)"
    using last_cons_append [of p g0 "concat gs"] by simp
  with Cons show ?case by simp
qed

lemma expected_deltas_nth:
  "k < length gs \<Longrightarrow>
     expected_deltas p gs ! k = deltas (last (p # concat (take k gs))) (gs ! k)"
proof (induction gs arbitrary: p k)
  case Nil
  then show ?case by simp
next
  case (Cons g0 gs)
  show ?case
  proof (cases k)
    case 0
    then show ?thesis by simp
  next
    case (Suc j)
    have "last (p # concat (take k (g0 # gs))) = last (last (p # g0) # concat (take j gs))"
      using last_cons_append [of p g0 "concat (take j gs)"] Suc by simp
    with Cons Suc show ?thesis by simp
  qed
qed

lemma length_expected_deltas: "length (expected_deltas p gs) = length gs"
  by (induction gs arbitrary: p) simp_all

lemma engine_event_cases:
  assumes "engine_event cfg ctx = Inr ctx'"
  shows "(time_speed ctx' = time_speed ctx \<and> trips ctx' = trips ctx \<and> old_time ctx' = old_time ctx)
       \<or> (time_speed ctx' = time_speed ctx @ [[]] \<and> trips ctx' = trips ctx + 1
           \<and> old_time ctx' = old_time ctx)"
  using assms by (auto simp: engine_event_def Let_def split: if_splits option.splits)

lemma speed_event_cases:
  assumes "speed_event ctx = Inr ctx'"
  shows "(time_speed ctx' = time_speed ctx \<and> trips ctx' = trips ctx \<and> old_time ctx' = old_time ctx)
       \<or> (\<exists>k t v. py_index (time_speed ctx) (trips ctx) = Some k \<and> time ctx = Some t
             \<and> time ctx' = Some t
             \<and> time_speed ctx' = (time_speed ctx)[k := time_speed ctx ! k @ [(t - old_time ctx, v)]]
             \<and> trips ctx' = trips ctx \<and> old_time ctx' = t)"
  using assms by (auto simp: speed_event_def split: if_splits option.splits)

lemma speed_events_logic_cases:
  assumes "speed_events_logic cfg msg_id ctx = Inr ctx'"
  shows "\<exists>k. step_is ctx ctx' k"
proof -
  have "speed_event ctx = Inr ctx' \<or> engine_event cfg ctx = Inr ctx' \<or> ctx' = ctx"
    using assms unfolding speed_events_logic_def by (simp split: if_splits)
  then consider "speed_event ctx = Inr ctx'" | "engine_event cfg ctx = Inr ctx'" | "ctx' = ctx"
    by blast
  then show ?thesis
  proof cases
    case 1
    from speed_event_cases [OF this] show ?thesis
    proof
      assume "time_speed ctx' = time_speed ctx \<and> trips ctx' = trips ctx \<and> old_time ctx' = old_time ctx"
      then have "step_is ctx ctx' Unchanged" by (simp add: step_is_def)
      then show ?thesis ..
    next
      assume "\<exists>k t v. py_index (time_speed ctx) (trips ctx) = Some k \<and> time ctx = Some t
             \<and> time ctx' = Some t
             \<and> time_speed ctx' = (time_speed ctx)[k := time_speed ctx ! k @ [(t - old_time ctx, v)]]
             \<and> trips ctx' = trips ctx \<and> old_time ctx' = t"
      then obtain k t v where "py_index (time_speed ctx) (trips ctx) = Some k" "time ctx' = Some t"
        "time_speed ctx' = (time_speed ctx)[k := time_speed ctx ! k @ [(t - old_time ctx, v)]]"
        "trips ctx' = trips ctx" "old_time ctx' = t" by blast
      then have "step_is ctx ctx' (Appended t)"
        unfolding step_is_def step_kind.case by blast
      then show ?thesis ..
    qed
  next
    case 2
    from engine_event_cases [OF this] show ?thesis
    proof
      assume "time_speed ctx' = time_speed ctx \<and> trips ctx' = trips ctx \<and> old_time ctx' = old_time ctx"
      then have "step_is ctx ctx' Unchanged" by (simp add: step_is_def)
      then show ?thesis ..
    next
      assume "time_speed ctx' = time_speed ctx @ [[]] \<and> trips ctx' = trips ctx + 1
           \<and> old_time ctx' = old_time ctx"
      then have "step_is ctx ctx' Opened" by (simp add: step_is_def)
      then show ?thesis ..
    qed
  next
    case 3
    then have "step_is ctx ctx' Unchanged" by (simp add: step_is_def)
    then show ?thesis ..
  qed
qed



lemma step_is_scratch:
  assumes "step_is c c' k"
    and "time_speed c0 = time_speed c" and "trips c0 = trips c" and "old_time c0 = old_time c"
  shows "step_is c0 c' k"
  using assms by (cases k) (simp_all add: step_is_def)

lemma process_frame_cases:
  assumes "process_frame cfg msg_id frame (speed_events_logic cfg) ctx = Inr ctx'"
  shows "\<exists>k. step_is ctx ctx' k"
proof -
  consider (spd) "msg_id = SPD_MSG_1 cfg"
    | (std) "msg_id \<noteq> SPD_MSG_1 cfg" "msg_id = ENG_MSG_STD cfg"
    | (ev) "msg_id \<noteq> SPD_MSG_1 cfg" "msg_id \<noteq> ENG_MSG_STD cfg" "msg_id = ENG_MSG_EV cfg"
    | (none) "msg_id \<noteq> SPD_MSG_1 cfg" "msg_id \<noteq> ENG_MSG_STD cfg" "msg_id \<noteq> ENG_MSG_EV cfg"
    by blast
  then show ?thesis
  proof cases
    case spd
    with assms have "speed_events_logic cfg msg_id
        (ctx\<lparr> speed := Some (get_speed_signal_a cfg frame),
               speed_unit := Some (get_speed_signal_b cfg frame) \<rparr>) = Inr ctx'"
      by (simp add: process_frame_def)
    from speed_events_logic_cases [OF this] obtain k where
      "step_is (ctx\<lparr> speed := Some (get_speed_signal_a cfg frame),
               speed_unit := Some (get_speed_signal_b cfg frame) \<rparr>) ctx' k" ..
    then have "step_is ctx ctx' k" by (rule step_is_scratch) simp_all
    then show ?thesis ..
  next
    case std
    with assms have "speed_events_logic cfg msg_id
        (ctx\<lparr> rpm := Some (get_engine_signal_a cfg frame),
               ign := Some (get_engine_signal_b cfg frame) \<rparr>) = Inr ctx'"
      by (simp add: process_frame_def)
    from speed_events_logic_cases [OF this] obtain k where
      "step_is (ctx\<lparr> rpm := Some (get_engine_signal_a cfg frame),
               ign := Some (get_engine_signal_b cfg frame) \<rparr>) ctx' k" ..
    then have "step_is ctx ctx' k" by (rule step_is_scratch) simp_all
    then show ?thesis ..
  next
    case ev
    with assms obtain g where "speed_events_logic cfg msg_id (ctx\<lparr> on := Some (g frame) \<rparr>) = Inr ctx'"
      by (cases "get_engine_signal_EV_a cfg") (simp_all add: process_frame_def)
    from speed_events_logic_cases [OF this] obtain k where
      "step_is (ctx\<lparr> on := Some (g frame) \<rparr>) ctx' k" ..
    then have "step_is ctx ctx' k" by (rule step_is_scratch) simp_all
    then show ?thesis ..
  next
    case none
    with assms have "ctx' = ctx" by (simp add: process_frame_def)
    then have "step_is ctx ctx' Unchanged" by (simp add: step_is_def)
    then show ?thesis ..
  qed
qed

lemma parse_line_cases:
  assumes "parse_line cfg line ctx = Inr ctx'"
  shows "\<exists>k. step_is ctx ctx' k"
proof -
  from assms obtain t msg_id frame where
    "process_frame cfg msg_id frame (speed_events_logic cfg) (ctx\<lparr> time := Some t \<rparr>) = Inr ctx'"
    by (auto simp: parse_line_def Let_def split: sum.splits)
  from process_frame_cases [OF this] obtain k where "step_is (ctx\<lparr> time := Some t \<rparr>) ctx' k" ..
  then have "step_is ctx ctx' k" by (rule step_is_scratch) simp_all
  then show ?thesis ..
qed


lemma py_index_last:
  assumes "py_index xs j = Some i" and "j = int (length xs) - 1"
  shows "i = length xs - 1 \<and> xs \<noteq> []"
  using assms by (auto simp: py_index_def split: if_splits)

lemma times_inv_step:
  assumes inv: "times_inv c g" and step: "step_is c c' k"
  shows "times_inv c' (observe_step c c' g)"
proof (cases k)
  case Unchanged
  with step have same: "time_speed c' = time_speed c" "trips c' = trips c" "old_time c' = old_time c"
    by (simp_all add: step_is_def)
  then have "observe_step c c' g = g" by (simp add: observe_step_def)
  with inv same show ?thesis by (simp add: times_inv_def)
next
  case Opened
  with step have op: "time_speed c' = time_speed c @ [[]]" "trips c' = trips c + 1"
    "old_time c' = old_time c"
    by (simp_all add: step_is_def)
  then have obs: "observe_step c c' g = g @ [[]]" by (simp add: observe_step_def)
  show ?thesis
    unfolding obs using inv op by (simp add: times_inv_def expected_deltas_snoc)
next
  case (Appended t)
  with step have "\<exists>i v. py_index (time_speed c) (trips c) = Some i \<and> time c' = Some t
      \<and> time_speed c' = (time_speed c)[i := time_speed c ! i @ [(t - old_time c, v)]]
      \<and> trips c' = trips c \<and> old_time c' = t"
    by (simp add: step_is_def)
  then obtain i v where idx: "py_index (time_speed c) (trips c) = Some i"
    and tm: "time c' = Some t"
    and ts: "time_speed c' = (time_speed c)[i := time_speed c ! i @ [(t - old_time c, v)]]"
    and tr: "trips c' = trips c" and ot: "old_time c' = t"
    by blast
  from inv have g: "g \<noteq> []" and len: "length g = length (time_speed c)"
    and trips: "trips c = int (length g) - 1"
    and m: "map (map fst) (time_speed c) = expected_deltas 0 g"
    and old: "old_time c = last (0 # concat g)"
    by (simp_all add: times_inv_def)
  from py_index_last [OF idx] trips len have i: "i = length (time_speed c) - 1"
    and ne: "time_speed c \<noteq> []" by simp_all
  obtain Ts Tl where T: "time_speed c = Ts @ [Tl]" using ne by (cases "time_speed c" rule: rev_cases) auto
  obtain gs gl where G: "g = gs @ [gl]" using g by (cases g rule: rev_cases) auto
  have ts': "time_speed c' = Ts @ [Tl @ [(t - old_time c, v)]]"
    using ts i T by simp
  have "time_speed c' \<noteq> time_speed c" using ts' T by simp
  moreover have "length (time_speed c') = length (time_speed c)" using ts by simp
  ultimately have obs: "observe_step c c' g = gs @ [gl @ [t]]"
    using tm G by (simp add: observe_step_def)
  from m T G have m1: "map (map fst) Ts = expected_deltas 0 gs"
    and m2: "map fst Tl = deltas (last (0 # concat gs)) gl"
    by (simp_all add: expected_deltas_snoc)
  have old': "old_time c = last (last (0 # concat gs) # gl)"
    using old G last_cons_append [of 0 "concat gs" gl] by simp
  have "map (map fst) (time_speed c') = expected_deltas 0 (gs @ [gl @ [t]])"
    using ts' m1 m2 old' by (simp add: expected_deltas_snoc deltas_snoc)
  moreover have "length (gs @ [gl @ [t]]) = length (time_speed c')"
    using len G ts by simp
  moreover have "trips c' = int (length (gs @ [gl @ [t]])) - 1"
    using tr trips G by simp
  moreover have "old_time c' = last (0 # concat (gs @ [gl @ [t]]))"
    using ot by simp
  ultimately show ?thesis
    unfolding obs by (simp add: times_inv_def)
qed

lemma times_inv_run:
  "parse_lines cfg count lines ctx = Inr ctx' \<Longrightarrow> times_inv ctx g \<Longrightarrow>
     times_inv ctx' (speed_times_from cfg count lines ctx g)"
proof (induction lines arbitrary: count ctx g)
  case Nil
  then show ?case by simp
next
  case (Cons line rest)
  show ?case
  proof (cases "count < 3")
    case True
    with Cons.prems have "parse_lines cfg (count + 1) rest ctx = Inr ctx'" by simp
    from Cons.IH [OF this Cons.prems(2)] True show ?thesis by simp
  next
    case False
    with Cons.prems(1) obtain c1 where c1: "parse_line cfg line ctx = Inr c1"
      and rest: "parse_lines cfg count rest c1 = Inr ctx'"
      by (auto split: sum.splits)
    from parse_line_cases [OF c1] obtain k where "step_is ctx c1 k" ..
    from times_inv_step [OF Cons.prems(2) this] have "times_inv c1 (observe_step ctx c1 g)" .
    from Cons.IH [OF rest this] c1 False show ?thesis by simp
  qed
qed

lemma times_inv_initial: "times_inv (initial_context cfg) [[]]"
  by (simp add: times_inv_def initial_context_def Let_def)

text \<open>
  Claim C3 says that the deltas of a trip sum up to the last minus the first time
  stamp of its speed events. The first delta of a trip is measured against the speed
  event stored before it, which belongs to the trip before (or against 0 at the
  start), so it is part of the sum and not of that difference. In the run of
  \<open>example_log\<close> the second trip has the time stamps 3500 and 4000 and the deltas
  2500 and 500.
\<close>

theorem trip_deltas_counterexample:
  "parse_file example_config example_log = Inr [[(1000, 5)], [(2500, 9), (500, 10)]]
   \<and> speed_event_times example_config example_log = [[1000], [3500, 4000]]
   \<and> sum_list (map fst [(2500, 9), (500, 10 :: int)]) \<noteq> last [3500, 4000] - hd [3500, 4000 :: int]"
  using example_run example_times by simp

text \<open>
  Claim C3 as amended: in every trip with at least one sample, the deltas of all
  samples but the first sum up to the last minus the first time stamp of the speed
  events of the trip, and the first delta is the first time stamp of the trip minus
  the time stamp of the last speed event stored before the trip (0 if there is none).
\<close>

theorem trip_deltas_telescope:
  assumes "parse_file cfg lines = Inr ts" and "k < length ts" and "ts ! k \<noteq> []"
  shows "length (speed_event_times cfg lines) = length ts
       \<and> length (speed_event_times cfg lines ! k) = length (ts ! k)
       \<and> sum_list (map fst (tl (ts ! k))) =
           last (speed_event_times cfg lines ! k) - hd (speed_event_times cfg lines ! k)
       \<and> fst (hd (ts ! k)) =
           hd (speed_event_times cfg lines ! k)
             - last (0 # concat (take k (speed_event_times cfg lines)))"
proof -
  let ?G = "speed_event_times cfg lines"
  from assms(1) obtain c where run: "parse_lines cfg 0 lines (initial_context cfg) = Inr c"
    and ts: "ts = time_speed c"
    by (auto simp: parse_file_def split: sum.splits)
  from times_inv_run [OF run times_inv_initial] have inv: "times_inv c ?G"
    by (simp add: speed_event_times_def)
  then have len: "length ?G = length ts" and m: "map (map fst) ts = expected_deltas 0 ?G"
    using ts by (simp_all add: times_inv_def)
  let ?q = "last (0 # concat (take k ?G))"
  have "map fst (ts ! k) = map (map fst) ts ! k" using assms(2) by simp
  also have "\<dots> = deltas ?q (?G ! k)"
    using m expected_deltas_nth [of k ?G 0] assms(2) len by simp
  finally have d: "map fst (ts ! k) = deltas ?q (?G ! k)" .
  then have "length (ts ! k) = length (?G ! k)"
    using length_deltas [of ?q "?G ! k"] length_map [of fst "ts ! k"] by simp
  then have lk: "length (?G ! k) = length (ts ! k)" by simp
  with assms(3) obtain t0 rest where g: "?G ! k = t0 # rest"
    by (cases "?G ! k") auto
  from assms(3) obtain x xs where t: "ts ! k = x # xs" by (cases "ts ! k") auto
  from d g t have hd: "fst x = t0 - ?q" and tl: "map fst xs = deltas t0 rest" by simp_all
  have "sum_list (map fst xs) = last (t0 # rest) - t0"
    using tl sum_deltas [of t0 rest] by simp
  with hd len lk g t show ?thesis by simp
qed


theorem trip_deltas_telescope_witness:
  "parse_file example_config example_log = Inr [[(1000, 5)], [(2500, 9), (500, 10)]]
   \<and> (1 :: nat) < length [[(1000, 5)], [(2500, 9), (500, 10 :: int)]]
   \<and> sum_list (map fst (tl [(2500, 9), (500, 10 :: int)])) = last [3500, 4000] - hd [3500, 4000 :: int]
   \<and> fst (hd [(2500, 9), (500, 10 :: int)]) = 3500 - (1000 :: int)"
  using trip_deltas_telescope [OF example_run, of 1] example_run example_times by simp

subsection \<open>The docstring example\<close>

lemma line_1_stamp: "get_offset_ms (py_split docstring_line_1) = Inr 12940"
  by code_simp

lemma line_1_id:
  "(case py_getitem (py_split docstring_line_1) 2 of Inl e \<Rightarrow> Inl e | Inr tok \<Rightarrow> py_int 16 tok) = Inr 0"
  by code_simp

lemma line_1_frame:
  "get_frame (py_split docstring_line_1) = Inr [''00'', ''00'', ''00'', ''00'', ''00'', ''00'']"
  by code_simp

lemma line_2_stamp: "get_offset_ms (py_split docstring_line_2) = Inr 13140"
  by code_simp

lemma line_2_id:
  "(case py_getitem (py_split docstring_line_2) 2 of Inl e \<Rightarrow> Inl e | Inr tok \<Rightarrow> py_int 16 tok) = Inr 0"
  by code_simp

lemma line_2_frame:
  "get_frame (py_split docstring_line_2) = Inr [''01'', ''00'', ''00'', ''00'', ''00'', ''00'']"
  by code_simp

lemma parse_line_steps:
  assumes "get_offset_ms (py_split line) = Inr t"
    and "(case py_getitem (py_split line) 2 of Inl e \<Rightarrow> Inl e | Inr tok \<Rightarrow> py_int 16 tok) = Inr msg_id"
    and "get_frame (py_split line) = Inr frame"
  shows "parse_line cfg line ctx =
           process_frame cfg msg_id frame (speed_events_logic cfg) (ctx\<lparr> time := Some t \<rparr>)"
  using assms unfolding parse_line_def Let_def
  by (auto split: sum.splits)

lemma list_update_last: "xs \<noteq> [] \<Longrightarrow> xs[length xs - 1 := y] = butlast xs @ [y]"
  by (induction xs rule: rev_induct) simp_all

lemma speed_frame_appends:
  assumes "msg_id = SPD_MSG_1 cfg" and "engine ctx" and "time ctx = Some t"
    and "trips ctx = int (length (time_speed ctx)) - 1" and "time_speed ctx \<noteq> []"
  shows "\<exists>ctx'. process_frame cfg msg_id frame (speed_events_logic cfg) ctx = Inr ctx'
           \<and> engine ctx' \<and> trips ctx' = trips ctx \<and> old_time ctx' = t
           \<and> time_speed ctx' =
               butlast (time_speed ctx)
                 @ [last (time_speed ctx) @ [(t - old_time ctx, get_speed_signal_a cfg frame)]]"
proof -
  let ?n = "length (time_speed ctx)"
  have idx: "py_index (time_speed ctx) (trips ctx) = Some (?n - 1)"
    using assms(4,5) by (cases "time_speed ctx") (simp_all add: py_index_def)
  have upd: "(time_speed ctx)[?n - Suc 0 := y] = butlast (time_speed ctx) @ [y]" for y
    using list_update_last [OF assms(5)] by simp
  have nth: "time_speed ctx ! (?n - Suc 0) = last (time_speed ctx)"
    using assms(5) by (simp add: last_conv_nth)
  have "process_frame cfg msg_id frame (speed_events_logic cfg) ctx =
          Inr (ctx\<lparr> speed := Some (get_speed_signal_a cfg frame),
                    speed_unit := Some (get_speed_signal_b cfg frame),
                    time_speed := (time_speed ctx)
                       [?n - 1 := time_speed ctx ! (?n - 1)
                                    @ [(t - old_time ctx, get_speed_signal_a cfg frame)]],
                    old_time := t \<rparr>)"
    using assms(1,2,3) idx
    by (simp add: process_frame_def speed_events_logic_def speed_event_def)
  then show ?thesis
    using assms(2) by (simp add: upd nth)
qed

lemma docstring_run: "parse_file docstring_config docstring_log = Inr [[(12940, 0), (200, 1)]]"
  by code_simp

lemma docstring_speed_0:
  "get_speed_signal_a docstring_config [''00'', ''00'', ''00'', ''00'', ''00'', ''00''] = 0"
  by code_simp

lemma docstring_speed_1:
  "get_speed_signal_a docstring_config [''01'', ''00'', ''00'', ''00'', ''00'', ''00''] = 1"
  by code_simp

lemma docstring_config_id: "SPD_MSG_1 docstring_config = 0"
  by (simp add: docstring_config_def reference_config_def)

lemma docstring_config_engine: "engine_status docstring_config ctx"
  by (simp add: docstring_config_def reference_config_def engine_status_src_def)

text \<open>
  Claim C2 gives \<open>[[(0, 0.0), (200, 1.0)]]\<close> as the result for the two speed lines at
  12.940318 s and 13.140300 s. The first delta is not 0: \<open>old_time\<close> starts at \<open>0.0\<close>,
  so the first sample carries its own time stamp, 12940 ms.
\<close>

theorem docstring_scenario_counterexample:
  "parse_file docstring_config docstring_log = Inr [[(12940, 0), (200, 1)]]
   \<and> parse_file docstring_config docstring_log \<noteq> Inr [[(0, 0), (200, 1)]]"
  using docstring_run by simp


text \<open>
  Claim C2 as amended: with the speed identifier of the two lines, the engine on
  throughout and the two payloads decoding to the speeds \<open>v0\<close> and \<open>v1\<close> (0.0 and
  1.0 in the claim), the result is the one trip \<open>[(12940, v0), (200, v1)]\<close>: the first
  delta is the time stamp of the first sample, the second delta is 200 ms.
\<close>

theorem docstring_scenario:
  assumes "SPD_MSG_1 cfg = 0" and "\<And>ctx. engine_status cfg ctx"
    and "get_speed_signal_a cfg [''00'', ''00'', ''00'', ''00'', ''00'', ''00''] = v0"
    and "get_speed_signal_a cfg [''01'', ''00'', ''00'', ''00'', ''00'', ''00''] = v1"
  shows "parse_file cfg docstring_log = Inr [[(12940, v0), (200, v1)]]"
proof -
  let ?c0 = "initial_context cfg"
  have c0: "engine ?c0" "time_speed ?c0 = [[]]" "trips ?c0 = 0" "old_time ?c0 = 0"
    using assms(2) by (simp_all add: initial_context_def Let_def)
  have "\<exists>c1. parse_line cfg docstring_line_1 ?c0 = Inr c1 \<and> engine c1 \<and> trips c1 = 0
          \<and> old_time c1 = 12940 \<and> time_speed c1 = [[(12940, v0)]]"
    unfolding parse_line_steps [OF line_1_stamp line_1_id line_1_frame]
    using speed_frame_appends [of 0 cfg "?c0\<lparr> time := Some 12940 \<rparr>" 12940
        "[''00'', ''00'', ''00'', ''00'', ''00'', ''00'']"] c0 assms(1,3)
    by simp
  then obtain c1 where s1: "parse_line cfg docstring_line_1 ?c0 = Inr c1"
    and c1: "engine c1" "trips c1 = 0" "old_time c1 = 12940" "time_speed c1 = [[(12940, v0)]]"
    by blast
  have "\<exists>c2. parse_line cfg docstring_line_2 c1 = Inr c2
          \<and> time_speed c2 = [[(12940, v0), (200, v1)]]"
    unfolding parse_line_steps [OF line_2_stamp line_2_id line_2_frame]
    using speed_frame_appends [of 0 cfg "c1\<lparr> time := Some 13140 \<rparr>" 13140
        "[''01'', ''00'', ''00'', ''00'', ''00'', ''00'']"] c1 assms(1,4)
    by auto
  then obtain c2 where s2: "parse_line cfg docstring_line_2 c1 = Inr c2"
    and c2: "time_speed c2 = [[(12940, v0), (200, v1)]]"
    by blast
  show ?thesis
    by (simp add: parse_file_def docstring_log_def s1 s2 c2)
qed

theorem docstring_scenario_witness:
  "SPD_MSG_1 docstring_config = 0
   \<and> get_speed_signal_a docstring_config [''00'', ''00'', ''00'', ''00'', ''00'', ''00''] = 0
   \<and> get_speed_signal_a docstring_config [''01'', ''00'', ''00'', ''00'', ''00'', ''00''] = 1
   \<and> parse_file docstring_config docstring_log = Inr [[(12940, 0), (200, 1)]]"
  using docstring_scenario [OF docstring_config_id docstring_config_engine docstring_speed_0 docstring_speed_1]
    docstring_config_id docstring_speed_0 docstring_speed_1 by simp

subsection \<open>The payload of a frame\<close>

lemma truncated_line_tokens:
  "py_split truncated_line = [''12.940318'', ''1'', ''000'', ''Tx'', ''d'', ''6'', ''00'', ''00'']"
  by code_simp

lemma truncated_line_length:
  "py_getitem [''12.940318'', ''1'', ''000'', ''Tx'', ''d'', ''6'', ''00'', ''00''] 5 = Inr ''6''"
  by code_simp

lemma declared_six: "py_int 10 ''6'' = Inr 6"
  by code_simp

lemma truncated_line_frame:
  "get_frame (py_split truncated_line) = Inr [''00'', ''00'']"
  by code_simp

lemma truncated_log_run: "parse_file reference_config truncated_log = Inr [[(12940, 0)]]"
  by code_simp

lemma slice_from_six:
  assumes "6 \<le> length xs" and "0 \<le> n"
  shows "py_slice xs 6 (n + 6) = take (nat n) (drop 6 xs)"
proof -
  have a: "slice_bound (length xs) 6 = 6" using assms by (simp add: slice_bound_def)
  have b: "slice_bound (length xs) (n + 6) = min (length xs) (nat n + 6)"
    using assms by (simp add: slice_bound_def nat_add_distrib)
  show ?thesis
    unfolding py_slice_def a b using assms by (cases "nat n + 6 \<le> length xs") (simp_all add: min_def)
qed

lemma py_getitem_5_length: "py_getitem xs 5 = Inr x \<Longrightarrow> 6 \<le> length xs"
  by (auto simp: py_getitem_def py_index_def split: option.splits if_splits)

text \<open>
  Claim C5 says that a declared payload length above the number of remaining tokens
  fails with a \<open>FrameTruncated\<close> error. The source has no such error: \<open>get_frame\<close> is
  one slice, and a slice never raises. On the line of \<open>truncated_line\<close>, which declares
  six payload bytes and carries two, \<open>get_frame\<close> returns the two bytes and
  \<open>parse_file\<close> returns a trip with the sample of that line.
\<close>

theorem frame_truncated_counterexample:
  "py_split truncated_line = [''12.940318'', ''1'', ''000'', ''Tx'', ''d'', ''6'', ''00'', ''00'']
   \<and> py_int 10 ''6'' = Inr 6
   \<and> get_frame (py_split truncated_line) = Inr [''00'', ''00'']
   \<and> parse_file reference_config truncated_log = Inr [[(12940, 0)]]"
  using truncated_line_tokens declared_six truncated_line_frame truncated_log_run by simp

text \<open>
  Claim C5 as amended: on a line with at least six tokens whose token 5 is a decimal
  number \<open>n \<ge> 0\<close>, \<open>get_frame\<close> raises nothing and returns the first \<open>n\<close> of the
  tokens after position 6, that is all of them when fewer than \<open>n\<close> remain; the
  payload has \<open>min n (length line - 6)\<close> tokens.
\<close>

theorem get_frame_truncates:
  assumes "py_getitem line 5 = Inr tok" and "py_int 10 tok = Inr n" and "0 \<le> n"
  shows "get_frame line = Inr (take (nat n) (drop 6 line))
       \<and> length (take (nat n) (drop 6 line)) = min (nat n) (length line - 6)"
  using assms py_getitem_5_length [OF assms(1)]
  by (simp add: get_frame_def slice_from_six)

theorem get_frame_truncates_witness:
  "py_getitem [''12.940318'', ''1'', ''000'', ''Tx'', ''d'', ''6'', ''00'', ''00''] 5 = Inr ''6''
   \<and> py_int 10 ''6'' = Inr 6
   \<and> get_frame [''12.940318'', ''1'', ''000'', ''Tx'', ''d'', ''6'', ''00'', ''00'']
       = Inr [''00'', ''00'']"
  using get_frame_truncates [OF truncated_line_length declared_six]
    truncated_line_length declared_six by simp

subsection \<open>The reference configuration\<close>

lemma reference_log_decodes: "list_all line_decodes (drop 3 reference_log)"
  by code_simp

lemma reference_log_run:
  "parse_file reference_config reference_log = Inr [[(12940, 0), (200, 0)]]"
  by code_simp

lemma ref_process_frame:
  "process_frame reference_config msg_id frame func ctx =
     (if msg_id = 0 then func msg_id (ctx\<lparr> speed := Some 0, speed_unit := Some 0 \<rparr>) else Inr ctx)"
  by (simp add: process_frame_def reference_config_def)

lemma ref_speed_events_logic:
  "speed_events_logic reference_config msg_id ctx = (if msg_id = 0 then speed_event ctx else Inr ctx)"
  by (simp add: speed_events_logic_def reference_config_def)

lemma ref_parse_line_engine:
  assumes "parse_line reference_config line ctx = Inr ctx'" and "engine ctx"
  shows "engine ctx'"
  using assms unfolding parse_line_def Let_def ref_process_frame ref_speed_events_logic
  by (auto simp: speed_event_def split: sum.splits if_splits option.splits)

lemma ref_parse_trace_engine:
  "engine ctx \<Longrightarrow> list_all engine (parse_trace reference_config count lines ctx)"
proof (induction reference_config count lines ctx rule: parse_trace.induct)
  case (1 count ctx)
  then show ?case by simp
next
  case (2 count line rest ctx)
  then show ?case
    by (auto split: sum.splits dest: ref_parse_line_engine)
qed

lemma on_off_edges_all_on: "list_all (\<lambda>b. b) bs \<Longrightarrow> on_off_edges bs = 0"
  by (induction bs rule: on_off_edges.induct) auto

lemma ref_initial_engine: "engine (initial_context reference_config)"
  by (simp add: initial_context_def Let_def reference_config_def engine_status_src_def)

lemma ref_engine_trace: "list_all (\<lambda>b. b) (engine_trace reference_config lines)"
  using ref_parse_trace_engine [OF ref_initial_engine, of 0 lines] ref_initial_engine
  by (simp add: engine_trace_def list_all_iff)

lemma ref_initial_inv: "ref_inv (initial_context reference_config)"
  by (simp add: ref_inv_def initial_context_def Let_def reference_config_def engine_status_src_def)

lemma ref_parse_line_inv:
  assumes "parse_line reference_config line ctx = Inr ctx'" and "ref_inv ctx"
  shows "ref_inv ctx'"
  using assms unfolding parse_line_def Let_def ref_process_frame ref_speed_events_logic
  by (auto simp: speed_event_def ref_inv_def split: sum.splits if_splits option.splits)

lemma ref_parse_line_total:
  assumes "line_decodes line" and "ref_inv ctx"
  shows "\<exists>ctx'. parse_line reference_config line ctx = Inr ctx'"
proof -
  from assms(1) have a: "\<not> isl (get_offset_ms (py_split line))"
    and b: "\<not> isl (case py_getitem (py_split line) 2 of Inl e \<Rightarrow> Inl e | Inr tok \<Rightarrow> py_int 16 tok)"
    and c: "\<not> isl (get_frame (py_split line))"
    by (simp_all add: line_decodes_def)
  from a obtain t where t: "get_offset_ms (py_split line) = Inr t"
    by (cases "get_offset_ms (py_split line)") auto
  from b obtain tok where tok: "py_getitem (py_split line) 2 = Inr tok"
    by (cases "py_getitem (py_split line) 2") auto
  from b tok obtain msg_id where i: "py_int 16 tok = Inr msg_id"
    by (cases "py_int 16 tok") auto
  from c obtain frame where f: "get_frame (py_split line) = Inr frame"
    by (cases "get_frame (py_split line)") auto
  have idx: "py_index (time_speed ctx) 0 = Some 0"
    using assms(2) by (simp add: ref_inv_def py_index_def)
  show ?thesis
    unfolding parse_line_def Let_def ref_process_frame ref_speed_events_logic
    using t tok i f idx assms(2)
    by (simp add: speed_event_def ref_inv_def)
qed

lemma ref_parse_lines_inv:
  "parse_lines reference_config count lines ctx = Inr ctx' \<Longrightarrow> ref_inv ctx \<Longrightarrow> ref_inv ctx'"
proof (induction reference_config count lines ctx rule: parse_lines.induct)
  case (1 count ctx)
  then show ?case by simp
next
  case (2 count line rest ctx)
  then show ?case
    by (auto split: if_splits sum.splits dest: ref_parse_line_inv)
qed

lemma ref_parse_lines_total:
  "ref_inv ctx \<Longrightarrow> list_all line_decodes (drop (3 - count) lines) \<Longrightarrow>
     \<exists>ctx'. parse_lines reference_config count lines ctx = Inr ctx'"
proof (induction lines arbitrary: count ctx)
  case Nil
  then show ?case by simp
next
  case (Cons line rest)
  show ?case
  proof (cases "count < 3")
    case True
    then have "3 - count = Suc (3 - (count + 1))" by simp
    then have "drop (3 - count) (line # rest) = drop (3 - (count + 1)) rest"
      by (simp only: drop_Suc_Cons)
    with Cons.prems(2) have "list_all line_decodes (drop (3 - (count + 1)) rest)" by simp
    from Cons.IH [OF Cons.prems(1) this] True show ?thesis by simp
  next
    case False
    with Cons.prems(2) have ld: "line_decodes line" and rest: "list_all line_decodes (drop (3 - count) rest)"
      by simp_all
    from ref_parse_line_total [OF ld Cons.prems(1)] obtain c1
      where c1: "parse_line reference_config line ctx = Inr c1" by blast
    from ref_parse_line_inv [OF c1 Cons.prems(1)] have "ref_inv c1" .
    from Cons.IH [OF this rest] c1 False show ?thesis by simp
  qed
qed

text \<open>
  Claim C4. In the reference configuration the three identifiers are all \<open>0x000\<close>.
  \<open>process_frame\<close> then takes the speed branch for that identifier and drops every
  other frame, so neither engine branch is ever taken, in the dispatcher or in the
  callback; the \<open>engine\<close> key is True at the start and after every line; and
  \<open>parse_file\<close> returns a list of exactly one trip whenever it returns, which it does
  on every log whose data lines decode.
\<close>

theorem reference_ids_single_trip:
  "SPD_MSG_1 reference_config = 0 \<and> ENG_MSG_STD reference_config = 0
   \<and> ENG_MSG_EV reference_config = 0
   \<and> process_frame reference_config msg_id frame func ctx =
         (if msg_id = SPD_MSG_1 reference_config
          then func msg_id (ctx\<lparr> speed := Some 0, speed_unit := Some 0 \<rparr>) else Inr ctx)
   \<and> speed_events_logic reference_config msg_id ctx =
         (if msg_id = SPD_MSG_1 reference_config then speed_event ctx else Inr ctx)
   \<and> list_all (\<lambda>b. b) (engine_trace reference_config lines)
   \<and> (\<forall>ts. parse_file reference_config lines = Inr ts \<longrightarrow> length ts = 1)
   \<and> (list_all line_decodes (drop 3 lines) \<longrightarrow>
         (\<exists>ts. parse_file reference_config lines = Inr ts \<and> length ts = 1))"
proof -
  have ids: "SPD_MSG_1 reference_config = 0" "ENG_MSG_STD reference_config = 0"
    "ENG_MSG_EV reference_config = 0"
    by (simp_all add: reference_config_def)
  have len: "length ts = 1" if "parse_file reference_config lines = Inr ts" for ts
  proof -
    from that obtain c where c: "parse_lines reference_config 0 lines (initial_context reference_config) = Inr c"
      and ts: "ts = time_speed c"
      by (auto simp: parse_file_def split: sum.splits)
    from ref_parse_lines_inv [OF c ref_initial_inv] ts show ?thesis by (simp add: ref_inv_def)
  qed
  have tot: "\<exists>ts. parse_file reference_config lines = Inr ts \<and> length ts = 1"
    if "list_all line_decodes (drop 3 lines)"
  proof -
    from ref_parse_lines_total [OF ref_initial_inv, of 0 lines] that obtain c
      where c: "parse_lines reference_config 0 lines (initial_context reference_config) = Inr c"
      by auto
    then have "parse_file reference_config lines = Inr (time_speed c)"
      by (simp add: parse_file_def)
    with len show ?thesis by blast
  qed
  show ?thesis
    using ids ref_process_frame ref_speed_events_logic ref_engine_trace len tot by simp
qed

theorem reference_ids_single_trip_witness:
  "list_all line_decodes (drop 3 reference_log)
   \<and> parse_file reference_config reference_log = Inr [[(12940, 0), (200, 0)]]
   \<and> length [[(12940, 0), (200, 0 :: int)]] = (1 :: nat)"
  using reference_ids_single_trip [where lines = reference_log]
    reference_log_decodes reference_log_run by simp

subsection \<open>Speed events while the engine is off\<close>

text \<open>
  Claim C7. A speed-class event processed while \<open>engine\<close> is False is dropped: the
  callback \<open>speed_events_logic\<close> returns the context unchanged, and the dispatcher
  \<open>process_frame\<close>, which stores the decoded speed in the scratch keys first, returns a
  context with the same trip list, the same \<open>old_time\<close>, the same trip index and the
  same engine state; no exception is raised.
\<close>

theorem speed_event_dropped_when_engine_off:
  assumes "msg_id = SPD_MSG_1 cfg" and "\<not> engine ctx"
  shows "speed_events_logic cfg msg_id ctx = Inr ctx
       \<and> (\<exists>ctx'. process_frame cfg msg_id frame (speed_events_logic cfg) ctx = Inr ctx'
              \<and> time_speed ctx' = time_speed ctx
              \<and> old_time ctx' = old_time ctx
              \<and> trips ctx' = trips ctx
              \<and> engine ctx' = engine ctx)"
  using assms by (simp add: speed_events_logic_def speed_event_def process_frame_def)

theorem speed_event_dropped_when_engine_off_witness:
  "speed_events_logic reference_config 0
     \<lparr> old_time = 7, trips = 1, engine = False, time_speed = [[(7, 0)], []],
       time = Some 9, speed = None, speed_unit = None, rpm = None, ign = None, on = None \<rparr>
   = Inr \<lparr> old_time = 7, trips = 1, engine = False, time_speed = [[(7, 0)], []],
       time = Some 9, speed = None, speed_unit = None, rpm = None, ign = None, on = None \<rparr>"
  using speed_event_dropped_when_engine_off
    [of 0 reference_config
        "\<lparr> old_time = 7, trips = 1, engine = False, time_speed = [[(7, 0)], []],
           time = Some 9, speed = None, speed_unit = None, rpm = None, ign = None,
           on = None \<rparr>"]
  by (simp add: reference_config_def)

subsection \<open>The replay and sampling threads\<close>

lemma inv_start: "pipeline_inv samples (start_dist samples)"
  by (simp add: pipeline_inv_def start_dist_def Speed_init_def get_speed_def get_end_def
      final_speed_def)

lemma inv_replay_step:
  assumes "pipeline_inv samples st"
  shows "pipeline_inv samples (replay_step st)"
proof (cases "time_speed_left st")
  case Nil
  with assms show ?thesis
    by (auto simp: pipeline_inv_def replay_step_def end_replay_def get_speed_def get_end_def)
next
  case (Cons sample rest)
  from assms obtain played where p: "played @ time_speed_left st = samples"
    and rest_inv: "replay_ended st \<longrightarrow> time_speed_left st = []"
      "get_end (shared st) = (\<not> replay_ended st)"
      "consumer st = Returned \<longrightarrow> replay_ended st"
      "list_all (\<lambda>v. v \<in> set (Finite 0 0 # map snd samples)) (speeds_read st)"
    by (auto simp: pipeline_inv_def)
  have "(played @ [sample]) @ rest = samples" using p Cons by simp
  moreover have "final_speed (played @ [sample]) = snd sample" by (simp add: final_speed_def)
  ultimately have "\<exists>pl. pl @ rest = samples \<and> snd sample = final_speed pl" by metis
  with rest_inv Cons show ?thesis
    by (simp add: pipeline_inv_def replay_step_def set_speed_def get_speed_def get_end_def)
qed

lemma speed_in_cell:
  assumes "pipeline_inv samples st"
  shows "get_speed (shared st) \<in> set (Finite 0 0 # map snd samples)"
proof -
  from assms obtain played where p: "played @ time_speed_left st = samples"
    and v: "get_speed (shared st) = final_speed played"
    by (auto simp: pipeline_inv_def)
  show ?thesis
  proof (cases "played = []")
    case True
    with v show ?thesis by (simp add: final_speed_def)
  next
    case False
    then have "last played \<in> set played" by simp
    then have "snd (last played) \<in> snd ` set samples" using p by auto
    with v False show ?thesis by (simp add: final_speed_def)
  qed
qed

lemma inv_read_step:
  assumes "pipeline_inv samples st"
  shows "pipeline_inv samples (read_step st)"
proof (cases "consumer st")
  case AtWhile
  with assms show ?thesis
    by (auto simp: pipeline_inv_def read_step_def)
next
  case AtGetSpeed
  with assms speed_in_cell [OF assms] show ?thesis
    by (auto simp: pipeline_inv_def read_step_def)
next
  case Returned
  with assms show ?thesis by (simp add: read_step_def)
qed

lemma inv_run: "pipeline_inv samples st \<Longrightarrow> pipeline_inv samples (run_schedule sched st)"
  by (induction sched st rule: run_schedule.induct) (simp_all add: inv_replay_step inv_read_step)

lemma early_finish_run:
  "run_schedule [ReplayThread, ParseThread, ParseThread, ReplayThread, ReplayThread, ParseThread]
     (start_dist [(0, Finite 10 0), (1000, Finite 20 0)])
   = \<lparr> shared = \<lparr> s_attr = Finite 20 0, e_attr = False \<rparr>, time_speed_left = [],
       replay_ended = True, consumer = Returned, old_speed = Finite 10 0,
       speeds_read = [Finite 10 0] \<rparr>"
  by code_simp


text \<open>
  Claim C9 says that the consumer never sees the replay finished before it has seen
  the last speed. The consumer tests \<open>get_end()\<close> and returns without reading the
  speed again: in the schedule below it reads 10.0, the producer then writes 20.0 and
  ends, and the consumer returns having read 10.0 only.
\<close>

theorem finished_before_final_speed_counterexample:
  "consumer (run_schedule
       [ReplayThread, ParseThread, ParseThread, ReplayThread, ReplayThread, ParseThread]
       (start_dist [(0, Finite 10 0), (1000, Finite 20 0)])) = Returned
   \<and> speeds_read (run_schedule
       [ReplayThread, ParseThread, ParseThread, ReplayThread, ReplayThread, ParseThread]
       (start_dist [(0, Finite 10 0), (1000, Finite 20 0)])) = [Finite 10 0]
   \<and> final_speed [(0, Finite 10 0), (1000, Finite 20 0)] = Finite 20 0"
  using early_finish_run by (simp add: final_speed_def)

text \<open>
  Claim C9 as amended: in every interleaving, once the cell says that the replay has
  ended it holds the last speed of the trip (the producer ends after its last
  \<open>set_speed\<close>), the consumer returns only after the replay has ended, and every
  speed it has read is the initial 0.0 or a speed of the trip; it may return without
  having read the last one.
\<close>

theorem finished_holds_final_speed:
  "(\<not> get_end (shared (run_schedule sched (start_dist samples))) \<longrightarrow>
      get_speed (shared (run_schedule sched (start_dist samples))) = final_speed samples)
   \<and> (consumer (run_schedule sched (start_dist samples)) = Returned \<longrightarrow>
        \<not> get_end (shared (run_schedule sched (start_dist samples))))
   \<and> list_all (\<lambda>v. v \<in> set (Finite 0 0 # map snd samples))
        (speeds_read (run_schedule sched (start_dist samples)))"
proof -
  let ?st = "run_schedule sched (start_dist samples)"
  have inv: "pipeline_inv samples ?st" by (rule inv_run [OF inv_start])
  then obtain played where p: "played @ time_speed_left ?st = samples"
    and v: "get_speed (shared ?st) = final_speed played"
    by (auto simp: pipeline_inv_def)
  have "get_speed (shared ?st) = final_speed samples" if "\<not> get_end (shared ?st)"
  proof -
    from that inv have "time_speed_left ?st = []" by (simp add: pipeline_inv_def)
    with p v show ?thesis by simp
  qed
  with inv show ?thesis by (simp add: pipeline_inv_def)
qed

theorem finished_holds_final_speed_witness:
  "\<not> get_end (shared (run_schedule
       [ReplayThread, ParseThread, ParseThread, ReplayThread, ReplayThread, ParseThread]
       (start_dist [(0, Finite 10 0), (1000, Finite 20 0)])))
   \<and> get_speed (shared (run_schedule
       [ReplayThread, ParseThread, ParseThread, ReplayThread, ReplayThread, ParseThread]
       (start_dist [(0, Finite 10 0), (1000, Finite 20 0)]))) = Finite 20 0"
  using finished_holds_final_speed
    [of "[ReplayThread, ParseThread, ParseThread, ReplayThread, ReplayThread, ParseThread]"
        "[(0, Finite 10 0), (1000, Finite 20 0)]"]
    early_finish_run
  by (simp add: get_end_def get_speed_def final_speed_def)

section \<open>Properties of the automation client\<close>

lemma start_loop_bound:
  "retry \<le> retry_counter \<Longrightarrow> snd (start_loop m retry_counter app retry) \<le> retry_counter"
proof (induction m retry_counter app retry rule: start_loop.induct)
  case (1 m retry_counter app retry)
  then show ?case by (subst start_loop.simps) auto
qed

lemma start_loop_not_reached:
  "snd (start_loop m retry_counter app retry) < retry_counter \<Longrightarrow>
     Running m (fst (start_loop m retry_counter app retry))"
proof (induction m retry_counter app retry rule: start_loop.induct)
  case (1 m retry_counter app retry)
  show ?case
  proof (cases "\<not> Running m app \<and> retry < retry_counter")
    case True
    with 1 show ?thesis by (subst start_loop.simps, subst (asm) start_loop.simps) simp
  next
    case False
    with "1.prems" show ?thesis by (subst start_loop.simps, subst (asm) start_loop.simps) auto
  qed
qed

lemma start_Measurement_no_error_running:
  assumes "start_Measurement m app = (app', None)"
  shows "Running m app'"
proof -
  from assms have "snd (start_loop m 5 app 0) < 5" and "app' = fst (start_loop m 5 app 0)"
    using start_loop_bound [of 0 5 m app]
    by (auto simp: start_Measurement_def Let_def split: prod.splits if_splits)
  with start_loop_not_reached [of m 5 app 0] show ?thesis by simp
qed


text \<open>
  Claim C8 says that \<open>start_Measurement\<close> raises exactly when the measurement is still
  not running after five attempts. The source raises when \<open>retry\<close> has reached 5,
  without looking at \<open>Running\<close> again: when the measurement comes up with the fifth
  \<open>Start()\<close>, the loop ends with \<open>retry = 5\<close> and the exception is raised although
  the measurement is running. With a start at the fourth call nothing is raised, and
  with no start within five calls the exception is raised with the measurement not
  running.
\<close>

theorem start_Measurement_late_start:
  "start_Measurement (starts_after 5) 0 = (5, Some RuntimeWarning)
   \<and> Running (starts_after 5) (fst (start_Measurement (starts_after 5) 0))
   \<and> start_Measurement (starts_after 4) 0 = (4, None)
   \<and> start_Measurement (starts_after 6) 0 = (5, Some RuntimeWarning)
   \<and> \<not> Running (starts_after 6) (fst (start_Measurement (starts_after 6) 0))"
  by code_simp

end
